theory Spec2Isabelle
  imports Main
begin

section \<open>Python values used by \<open>Fasta.py\<close>\<close>

text \<open>
  The exceptions the modelled code can raise: \<open>IndexError\<close> from \<open>list(...)[0]\<close>,
  \<open>KeyError\<close> from a dictionary lookup, \<open>TypeError\<close> from \<open>''.join\<close> on a list that
  holds a non-string and from a call with an argument the method does not take,
  \<open>ValueError\<close> from \<open>range\<close> with step zero, \<open>AssertionError\<close> from
  the \<open>assert\<close> on the path suffix.
\<close>

datatype error = IndexError | KeyError | TypeError | ValueError | AssertionError

text \<open>
  A Python \<open>dict\<close> keeps its keys in insertion order, so it is an association list whose
  keys are pairwise distinct. Assigning to a key that is present replaces the value in
  place; assigning to a new key appends the entry.
\<close>

type_synonym ('k, 'v) dict = "('k \<times> 'v) list"

definition dict_keys :: "('k, 'v) dict \<Rightarrow> 'k list" where
  "dict_keys d = map fst d"

definition dict_values :: "('k, 'v) dict \<Rightarrow> 'v list" where
  "dict_values d = map snd d"

fun dict_set :: "('k, 'v) dict \<Rightarrow> 'k \<Rightarrow> 'v \<Rightarrow> ('k, 'v) dict" where
  "dict_set [] k v = [(k, v)]"
| "dict_set ((k', v') # d) k v =
     (if k' = k then (k, v) # d else (k', v') # dict_set d k v)"

text \<open>\<open>range(start, stop, step)\<close>: ascending for a positive step, descending for a
  negative one, \<open>ValueError\<close> for step zero.\<close>

function range_up :: "int \<Rightarrow> int \<Rightarrow> int \<Rightarrow> int list" where
  "range_up i stop step =
     (if 0 < step \<and> i < stop then i # range_up (i + step) stop step else [])"
  by pat_completeness auto
termination
  by (relation "measure (\<lambda>(i, stop, step). nat (stop - i))") auto

function range_down :: "int \<Rightarrow> int \<Rightarrow> int \<Rightarrow> int list" where
  "range_down i stop step =
     (if step < 0 \<and> stop < i then i # range_down (i + step) stop step else [])"
  by pat_completeness auto
termination
  by (relation "measure (\<lambda>(i, stop, step). nat (i - stop))") auto

declare range_up.simps [simp del] range_down.simps [simp del]

definition py_range :: "int \<Rightarrow> int \<Rightarrow> int \<Rightarrow> error + int list" where
  "py_range start stop step =
     (if step = 0 then Inl ValueError
      else if 0 < step then Inr (range_up start stop step)
      else Inr (range_down start stop step))"

text \<open>\<open>s[i:j]\<close>: a negative bound counts from the end, every bound is clamped to
  \<open>[0, len(s)]\<close>, and an empty interval gives the empty string.\<close>

definition slice_bound :: "nat \<Rightarrow> int \<Rightarrow> nat" where
  "slice_bound n k = (if k < 0 then nat (max 0 (int n + k)) else min (nat k) n)"

definition py_slice :: "'a list \<Rightarrow> int \<Rightarrow> int \<Rightarrow> 'a list" where
  "py_slice s i j =
     (let a = slice_bound (length s) i; b = slice_bound (length s) j
      in take (b - a) (drop a s))"

text \<open>\<open>sep.join(xs)\<close> on a list of strings.\<close>

fun str_join :: "string \<Rightarrow> string list \<Rightarrow> string" where
  "str_join sep [] = []"
| "str_join sep [x] = x"
| "str_join sep (x # y # xs) = x @ sep @ str_join sep (y # xs)"

definition endswith :: "string \<Rightarrow> string \<Rightarrow> bool" where
  "endswith s suffix =
     (length suffix \<le> length s \<and> drop (length s - length suffix) s = suffix)"

section \<open>The alignment: \<open>AlignmentFasta.__init__\<close>\<close>

record AlignmentFasta =
  sequences :: "(string, string) dict"
  seq_length :: nat
  num_of_sequences :: nat

text \<open>
  \<^verbatim>\<open>self.sequences = sequences
self.seq_length = len(list(sequences.values())[0])
self.num_of_sequences = len(sequences)\<close>

  The only way the initializer fails is the index \<open>[0]\<close> into an empty list of values.
\<close>

definition init :: "(string, string) dict \<Rightarrow> error + AlignmentFasta" where
  "init seqs =
     (case dict_values seqs of
        [] \<Rightarrow> Inl IndexError
      | first # _ \<Rightarrow>
          Inr \<lparr>sequences = seqs, seq_length = length first,
               num_of_sequences = length seqs\<rparr>)"

section \<open>The part of pandas that \<open>__delete_gaped_columns\<close> calls\<close>

text \<open>
  A data frame is a grid of cells with row labels (\<open>index\<close>) and column labels
  (\<open>columns\<close>), kept here row by row: one row per row label, one cell per column label.
\<close>

record ('r, 'c, 'a) DataFrame =
  df_index :: "'r list"
  df_columns :: "'c list"
  df_rows :: "'a list list"

definition df_column :: "'a list list \<Rightarrow> nat \<Rightarrow> 'a list" where
  "df_column rows j = map (\<lambda>row. row ! j) rows"

text \<open>
  \<open>pd.DataFrame.from_dict(d, orient='index')\<close> on a dictionary of lists: the keys label
  the rows in insertion order, the columns are labelled \<open>0 .. width - 1\<close> where \<open>width\<close>
  is the longest list, and a shorter list is padded on the right with the missing value
  (\<open>None\<close>). A cell is \<open>Some c\<close> for the one-character string \<open>c\<close>.
\<close>

definition from_dict :: "('r, 'a list) dict \<Rightarrow> ('r, nat, 'a option) DataFrame" where
  "from_dict d =
     (let width = foldr max (map length (dict_values d)) 0
      in \<lparr>df_index = dict_keys d, df_columns = [0..<width],
          df_rows = map (\<lambda>v. map Some v @ replicate (width - length v) None)
                      (dict_values d)\<rparr>)"

text \<open>\<open>df == x\<close>: the frame of booleans, cell by cell; a missing cell equals nothing.\<close>

definition df_eq :: "('r, 'c, 'a option) DataFrame \<Rightarrow> 'a \<Rightarrow> ('r, 'c, bool) DataFrame" where
  "df_eq df x =
     \<lparr>df_index = df_index df, df_columns = df_columns df,
      df_rows = map (map (\<lambda>cell. cell = Some x)) (df_rows df)\<rparr>"

text \<open>\<open>df.any()\<close> (along the rows): one boolean per column, in column order.\<close>

definition df_any :: "('r, 'c, bool) DataFrame \<Rightarrow> bool list" where
  "df_any df =
     map (\<lambda>j. list_ex (\<lambda>b. b) (df_column (df_rows df) j)) [0..<length (df_columns df)]"

text \<open>\<open>~mask\<close>.\<close>

definition invert :: "bool list \<Rightarrow> bool list" where
  "invert flags = map Not flags"

text \<open>\<open>df.loc[:, mask]\<close> with a boolean mask over the columns: all rows, the columns
  whose flag is set, in their order.\<close>

fun select :: "bool list \<Rightarrow> 'a list \<Rightarrow> 'a list" where
  "select (b # bs) (x # xs) = (if b then x # select bs xs else select bs xs)"
| "select _ _ = []"

definition loc_columns :: "('r, 'c, 'a) DataFrame \<Rightarrow> bool list \<Rightarrow> ('r, 'c, 'a) DataFrame" where
  "loc_columns df flags =
     \<lparr>df_index = df_index df, df_columns = select flags (df_columns df),
      df_rows = map (select flags) (df_rows df)\<rparr>"

text \<open>\<open>df.T\<close>: rows and columns change places.\<close>

definition df_T :: "('r, 'c, 'a) DataFrame \<Rightarrow> ('c, 'r, 'a) DataFrame" where
  "df_T df =
     \<lparr>df_index = df_columns df, df_columns = df_index df,
      df_rows = map (df_column (df_rows df)) [0..<length (df_columns df)]\<rparr>"

text \<open>\<open>df.to_dict('list')\<close>: a new dictionary filled column by column, each column label
  mapped to the list of that column's cells.\<close>

definition to_dict_list :: "('r, 'c, 'a) DataFrame \<Rightarrow> ('c, 'a list) dict" where
  "to_dict_list df =
     fold (\<lambda>(j, label) d. dict_set d label (df_column (df_rows df) j))
       (zip [0..<length (df_columns df)] (df_columns df)) []"

section \<open>\<open>AlignmentFasta.__delete_gaped_columns\<close>\<close>

text \<open>\<open>''.join(cells)\<close>: \<open>TypeError\<close> at the first cell that is not a string.\<close>

fun join_cells :: "char option list \<Rightarrow> error + string" where
  "join_cells [] = Inr []"
| "join_cells (None # cells) = Inl TypeError"
| "join_cells (Some c # cells) =
     (case join_cells cells of Inl e \<Rightarrow> Inl e | Inr s \<Rightarrow> Inr (c # s))"

text \<open>
  \<^verbatim>\<open>for key in sequence_dict.keys():
    sequence_dict[key] = ''.join(sequence_dict[key])\<close>

  Every key is present, so each assignment replaces a value in place and the order of
  the entries stays; the first \<open>TypeError\<close> ends the loop.
\<close>

fun join_values :: "(string, char option list) dict \<Rightarrow> error + (string, string) dict" where
  "join_values [] = Inr []"
| "join_values ((key, cells) # d) =
     (case join_cells cells of
        Inl e \<Rightarrow> Inl e
      | Inr s \<Rightarrow> (case join_values d of Inl e \<Rightarrow> Inl e | Inr d' \<Rightarrow> Inr ((key, s) # d')))"

text \<open>
  \<^verbatim>\<open>sequence_dict = self.sequences
for key in sequence_dict.keys():
    sequence_dict[key] = list(sequence_dict[key])
seq_df = pd.DataFrame.from_dict(sequence_dict, orient='index')
seq_df = seq_df.loc[:, ~(seq_df == '-').any()]
sequence_dict = seq_df.T.to_dict('list')
for key in sequence_dict.keys():
    sequence_dict[key] = ''.join(sequence_dict[key])
self.sequences = sequence_dict\<close>

  \<open>list(s)\<close> is the list of the characters of \<open>s\<close>, which a HOL \<open>string\<close> already is, and
  the first loop assigns to present keys only: it leaves the model's dictionary as it
  is. The method assigns \<open>self.sequences\<close> and no other attribute.
\<close>

definition delete_gaped_columns :: "AlignmentFasta \<Rightarrow> error + AlignmentFasta" where
  "delete_gaped_columns self =
     (let sequence_dict = sequences self;
          seq_df = from_dict sequence_dict;
          seq_df = loc_columns seq_df (invert (df_any (df_eq seq_df CHR ''-'')));
          sequence_dict = to_dict_list (df_T seq_df)
      in case join_values sequence_dict of
           Inl e \<Rightarrow> Inl e
         | Inr sequence_dict \<Rightarrow> Inr (self\<lparr>sequences := sequence_dict\<rparr>))"

section \<open>\<open>AlignmentFasta.write_file\<close>\<close>

text \<open>
  \<^verbatim>\<open>sequence[i:i + 60] for i in range(0, len(sequence), 60)\<close>

  The source writes the block width as the literal 60, twice. \<open>blocks\<close> reads the
  expression with the literal as a parameter; \<open>write_file\<close> below fixes it to 60.
\<close>

definition blocks :: "int \<Rightarrow> string \<Rightarrow> error + string list" where
  "blocks width sequence =
     (case py_range 0 (int (length sequence)) width of
        Inl e \<Rightarrow> Inl e
      | Inr starts \<Rightarrow> Inr (map (\<lambda>i. py_slice sequence i (i + width)) starts))"

text \<open>
  \<^verbatim>\<open>for header, sequence in self.sequences.items():
    file.write(f'>{header}')
    file.write('\n')
    file.write('\n'.join(<blocks>))
    file.write('\n')\<close>

  The result is the text written to the file, which was opened for writing and is
  therefore empty before the loop. The file system is not part of the model: \<open>open\<close>
  is taken to succeed.
\<close>

fun write_records :: "int \<Rightarrow> (string, string) dict \<Rightarrow> error + string" where
  "write_records width [] = Inr []"
| "write_records width ((header, sequence) # rest) =
     (case blocks width sequence of
        Inl e \<Rightarrow> Inl e
      | Inr bs \<Rightarrow>
          (case write_records width rest of
             Inl e \<Rightarrow> Inl e
           | Inr out \<Rightarrow>
               Inr (''>'' @ header @ [CHR 0x0A] @ str_join [CHR 0x0A] bs @ [CHR 0x0A] @ out)))"

definition write_file :: "AlignmentFasta \<Rightarrow> string \<Rightarrow> error + string" where
  "write_file self path =
     (if endswith path ''.fa'' \<or> endswith path ''.fasta''
      then write_records 60 (sequences self)
      else Inl AssertionError)"

text \<open>
  \<^verbatim>\<open>def write_file(self, path: str) -> None:\<close>

  Besides \<open>self\<close> the method has the one parameter \<open>path\<close>. A call that passes a
  further argument, by position or as \<open>width=...\<close>, is refused with \<open>TypeError\<close>
  before the body runs. \<open>call_write_file\<close> is the call with that optional further
  argument written out.
\<close>

definition call_write_file :: "AlignmentFasta \<Rightarrow> string \<Rightarrow> int option \<Rightarrow> error + string" where
  "call_write_file self path width =
     (case width of None \<Rightarrow> write_file self path | Some w \<Rightarrow> Inl TypeError)"

section \<open>Valid alignments, gapped columns and the invariant\<close>

text \<open>A valid alignment: a non-empty dictionary (distinct identifiers) whose sequences
  all have the length of the first one.\<close>

definition valid_alignment :: "(string, string) dict \<Rightarrow> bool" where
  "valid_alignment seqs =
     (seqs \<noteq> [] \<and> distinct (dict_keys seqs) \<and>
      list_all (\<lambda>s. length s = length (hd (dict_values seqs))) (dict_values seqs))"

text \<open>A gapped column has the gap symbol in at least one row; the kept columns are
  the other column indices, in ascending order.\<close>

definition gapped_column :: "(string, string) dict \<Rightarrow> nat \<Rightarrow> bool" where
  "gapped_column seqs c = list_ex (\<lambda>s. s ! c = CHR ''-'') (dict_values seqs)"

definition kept_columns :: "(string, string) dict \<Rightarrow> nat list" where
  "kept_columns seqs =
     filter (\<lambda>c. \<not> gapped_column seqs c) [0..<length (hd (dict_values seqs))]"

text \<open>Every row restricted to the kept columns: each sequence becomes its characters at
  the kept column indices, in that order.\<close>

definition filtered :: "(string, string) dict \<Rightarrow> (string, string) dict" where
  "filtered seqs = map (\<lambda>(key, s). (key, map (\<lambda>c. s ! c) (kept_columns seqs))) seqs"

text \<open>The invariant of the data model: every sequence has the stored length, and the
  stored count is the number of entries.\<close>

definition length_invariant :: "AlignmentFasta \<Rightarrow> bool" where
  "length_invariant self =
     (list_all (\<lambda>s. length s = seq_length self) (dict_values (sequences self)) \<and>
      length (sequences self) = num_of_sequences self)"

definition gap_free :: "(string, string) dict \<Rightarrow> bool" where
  "gap_free seqs = list_all (\<lambda>s. CHR ''-'' \<notin> set s) (dict_values seqs)"

section \<open>Dictionaries, frames and the filter on a rectangular grid\<close>

lemma dict_set_fresh: "k \<notin> fst ` set d \<Longrightarrow> dict_set d k v = d @ [(k, v)]"
  by (induction d) auto

lemma fold_dict_set_fresh:
  assumes "distinct (map snd js)" and "snd ` set js \<inter> fst ` set acc = {}"
  shows "fold (\<lambda>(j, label) d. dict_set d label (f j)) js acc
           = acc @ map (\<lambda>(j, label). (label, f j)) js"
  using assms
proof (induction js arbitrary: acc)
  case Nil
  then show ?case by simp
next
  case (Cons p js)
  obtain j label where p: "p = (j, label)" by (cases p)
  from Cons.prems p have fresh: "label \<notin> fst ` set acc" by auto
  have disj: "snd ` set js \<inter> fst ` set (acc @ [(label, f j)]) = {}"
    using Cons.prems p by auto
  have "distinct (map snd js)" using Cons.prems by simp
  from Cons.IH [OF this disj] show ?case
    by (simp add: p dict_set_fresh [OF fresh])
qed

lemma foldr_max_same:
  "list_all (\<lambda>v. length v = n) vs \<Longrightarrow>
   foldr max (map length vs) 0 = (if vs = [] then 0 else n)"
  by (induction vs) auto

lemma select_map: "select bs (map f xs) = map f (select bs xs)"
  by (induction bs xs rule: select.induct) auto

lemma length_select:
  "length xs = length bs \<Longrightarrow> length (select bs xs) = length (filter (\<lambda>b. b) bs)"
  by (induction bs xs rule: select.induct) auto

lemma select_nth:
  "length bs = length xs \<Longrightarrow>
   select bs xs = map (\<lambda>c. xs ! c) (filter (\<lambda>c. bs ! c) [0..<length xs])"
proof (induction bs xs rule: select.induct)
  case (1 b bs x xs)
  have upt: "[0..<length (x # xs)] = 0 # map Suc [0..<length xs]"
    by (simp add: upt_conv_Cons map_Suc_upt del: upt_Suc)
  from 1 have len: "length bs = length xs" by simp
  show ?case
    using 1 len unfolding upt by (simp add: filter_map comp_def)
qed simp_all

lemma join_cells_Some: "join_cells (map Some s) = Inr s"
  by (induction s) simp_all

lemma join_values_Some:
  "join_values (map (\<lambda>(key, s). (key, map Some (g s))) d) = Inr (map (\<lambda>(key, s). (key, g s)) d)"
  by (induction d) (auto simp: join_cells_Some)

lemma df_column_rows:
  assumes "list_all (\<lambda>row. length row = m) rows" and "j < length rows"
  shows "df_column (map (df_column rows) [0..<m]) j = rows ! j"
proof -
  from assms have len: "length (rows ! j) = m" by (simp add: list_all_length)
  have "df_column (map (df_column rows) [0..<m]) j = map (\<lambda>c. (rows ! j) ! c) [0..<m]"
    using assms(2) by (simp add: df_column_def)
  also have "\<dots> = rows ! j" using len map_nth [of "rows ! j"] by simp
  finally show ?thesis .
qed


lemma from_dict_rectangular:
  assumes "d \<noteq> []" and "list_all (\<lambda>v. length v = n) (dict_values d)"
  shows "from_dict d =
           \<lparr>df_index = dict_keys d, df_columns = [0..<n],
            df_rows = map (map Some) (dict_values d)\<rparr>"
proof -
  from assms(1) have ne: "dict_values d \<noteq> []" by (simp add: dict_values_def)
  have width: "foldr max (map length (dict_values d)) 0 = n"
    using foldr_max_same [OF assms(2)] ne by simp
  have "map (\<lambda>v. map Some v @ replicate (n - length v) None) (dict_values d)
          = map (map Some) (dict_values d)"
    using assms(2) by (simp add: list_all_iff)
  then show ?thesis by (simp add: from_dict_def width)
qed


lemma to_dict_list_T:
  assumes "distinct (df_index df)"
    and "length (df_rows df) = length (df_index df)"
    and "list_all (\<lambda>row. length row = length (df_columns df)) (df_rows df)"
  shows "to_dict_list (df_T df) = zip (df_index df) (df_rows df)"
proof -
  let ?n = "length (df_index df)"
  let ?rowsT = "map (df_column (df_rows df)) [0..<length (df_columns df)]"
  let ?js = "zip [0..<?n] (df_index df)"
  have snd_js: "map snd ?js = df_index df" by (simp add: map_snd_zip)
  have "to_dict_list (df_T df)
          = fold (\<lambda>(j, label) d. dict_set d label (df_column ?rowsT j)) ?js []"
    by (simp add: to_dict_list_def df_T_def)
  also have "\<dots> = [] @ map (\<lambda>(j, label). (label, df_column ?rowsT j)) ?js"
    by (rule fold_dict_set_fresh) (simp_all add: snd_js assms(1))
  also have "\<dots> = zip (df_index df) (df_rows df)"
  proof (rule nth_equalityI)
    show "length ([] @ map (\<lambda>(j, label). (label, df_column ?rowsT j)) ?js)
            = length (zip (df_index df) (df_rows df))"
      by (simp add: assms(2))
  next
    fix i
    assume "i < length ([] @ map (\<lambda>(j, label). (label, df_column ?rowsT j)) ?js)"
    then have i: "i < ?n" by simp
    then have "i < length (df_rows df)" by (simp add: assms(2))
    from df_column_rows [OF assms(3) this] i
    show "([] @ map (\<lambda>(j, label). (label, df_column ?rowsT j)) ?js) ! i
            = zip (df_index df) (df_rows df) ! i"
      by (simp add: assms(2))
  qed
  finally show ?thesis .
qed

lemma df_any_eq_rectangular:
  assumes "list_all (\<lambda>v. length v = n) vs"
  shows "df_any (df_eq \<lparr>df_index = ks, df_columns = [0..<n],
                         df_rows = map (map Some) vs\<rparr> x)
           = map (\<lambda>j. list_ex (\<lambda>s. s ! j = x) vs) [0..<n]"
  using assms
  by (auto simp: df_any_def df_eq_def df_column_def list_ex_iff list_all_iff)


lemma filter_nth_map_upt:
  "filter (\<lambda>c. map f [0..<n] ! c) [0..<n] = filter f [0..<n]"
  by (rule filter_cong) simp_all

lemma delete_gaped_columns_valid:
  assumes "valid_alignment (sequences self)"
  shows "delete_gaped_columns self = Inr (self\<lparr>sequences := filtered (sequences self)\<rparr>)"
proof -
  let ?d = "sequences self"
  let ?n = "length (hd (dict_values ?d))"
  let ?flags = "map (\<lambda>j. \<not> gapped_column ?d j) [0..<?n]"
  from assms have ne: "?d \<noteq> []" and dist: "distinct (dict_keys ?d)"
    and rect: "list_all (\<lambda>v. length v = ?n) (dict_values ?d)"
    by (simp_all add: valid_alignment_def)
  have frame: "from_dict ?d =
      \<lparr>df_index = dict_keys ?d, df_columns = [0..<?n],
       df_rows = map (map Some) (dict_values ?d)\<rparr>"
    by (rule from_dict_rectangular [OF ne rect])
  have flags: "invert (df_any (df_eq (from_dict ?d) CHR ''-'')) = ?flags"
    by (simp add: frame df_any_eq_rectangular [OF rect] invert_def gapped_column_def comp_def)
  let ?df = "loc_columns (from_dict ?d) ?flags"
  have rows: "df_rows ?df = map (\<lambda>s. map Some (select ?flags s)) (dict_values ?d)"
    by (simp add: loc_columns_def frame select_map)
  have idx: "df_index ?df = dict_keys ?d"
    by (simp add: loc_columns_def frame)
  have cols: "length (df_columns ?df) = length (filter (\<lambda>b. b) ?flags)"
    by (simp add: loc_columns_def frame length_select)
  have "list_all (\<lambda>row. length row = length (df_columns ?df)) (df_rows ?df)"
    using rect by (simp add: rows cols list_all_iff length_select)
  moreover have "length (df_rows ?df) = length (df_index ?df)"
    unfolding rows idx by (simp add: dict_keys_def dict_values_def)
  moreover have "distinct (df_index ?df)" by (simp add: idx dist)
  ultimately have "to_dict_list (df_T ?df) = zip (df_index ?df) (df_rows ?df)"
    by (simp add: to_dict_list_T)
  also have "\<dots> = map (\<lambda>(key, s). (key, map Some (select ?flags s))) ?d"
    unfolding rows idx
    by (simp add: dict_keys_def dict_values_def zip_map_map zip_same_conv_map
        case_prod_unfold)
  finally have dict: "to_dict_list (df_T ?df)
      = map (\<lambda>(key, s). (key, map Some (select ?flags s))) ?d" .
  have sel: "select ?flags s = map (\<lambda>c. s ! c) (kept_columns ?d)"
    if "s \<in> set (dict_values ?d)" for s
  proof -
    from that rect have "length s = ?n" by (simp add: list_all_iff)
    then show ?thesis
      using select_nth [of ?flags s]
      by (simp add: kept_columns_def filter_nth_map_upt)
  qed
  have "map (\<lambda>(key, s). (key, select ?flags s)) ?d
          = map (\<lambda>(key, s). (key, map (\<lambda>c. s ! c) (kept_columns ?d))) ?d"
    using sel by (force simp: dict_values_def)
  then show ?thesis
    by (simp add: delete_gaped_columns_def Let_def flags dict join_values_Some filtered_def)
qed

lemma kept_columns_sorted: "sorted_wrt (<) (kept_columns seqs)"
  by (simp add: kept_columns_def sorted_wrt_filter)

lemma kept_columns_set:
  "c \<in> set (kept_columns seqs) \<longleftrightarrow>
     c < length (hd (dict_values seqs)) \<and> (\<forall>s \<in> set (dict_values seqs). s ! c \<noteq> CHR ''-'')"
  by (auto simp: kept_columns_def gapped_column_def list_ex_iff)

lemma kept_columns_gap_free:
  assumes "valid_alignment seqs" and "gap_free seqs"
  shows "kept_columns seqs = [0..<length (hd (dict_values seqs))]"
proof -
  have "\<not> gapped_column seqs c" if "c < length (hd (dict_values seqs))" for c
  proof
    assume "gapped_column seqs c"
    then obtain s where s: "s \<in> set (dict_values seqs)" and gap: "s ! c = CHR ''-''"
      by (auto simp: gapped_column_def list_ex_iff)
    from s assms(1) have "length s = length (hd (dict_values seqs))"
      by (simp add: valid_alignment_def list_all_iff)
    with that have "s ! c \<in> set s" by simp
    with gap s assms(2) show False by (auto simp: gap_free_def list_all_iff)
  qed
  then show ?thesis by (simp add: kept_columns_def)
qed

lemma delete_gaped_columns_gap_free:
  assumes "valid_alignment (sequences self)" and "gap_free (sequences self)"
  shows "delete_gaped_columns self = Inr self"
proof -
  let ?d = "sequences self"
  have "filtered ?d = ?d"
    unfolding filtered_def
  proof (rule map_idI)
    fix p assume p: "p \<in> set ?d"
    then have "snd p \<in> set (dict_values ?d)" by (simp add: dict_values_def)
    with assms(1) have "length (snd p) = length (hd (dict_values ?d))"
      by (simp add: valid_alignment_def list_all_iff)
    then have "map (\<lambda>c. snd p ! c) (kept_columns ?d) = snd p"
      using map_nth [of "snd p"] by (simp add: kept_columns_gap_free [OF assms])
    then show "(case p of (key, s) \<Rightarrow> (key, map (\<lambda>c. s ! c) (kept_columns ?d))) = p"
      by (simp add: case_prod_unfold)
  qed
  then show ?thesis by (simp add: delete_gaped_columns_valid [OF assms(1)])
qed

lemma filtered_valid:
  assumes "valid_alignment seqs"
  shows "valid_alignment (filtered seqs)"
  using assms
  by (cases seqs)
    (auto simp: valid_alignment_def filtered_def dict_keys_def dict_values_def list_all_iff
      comp_def case_prod_unfold)

lemma filtered_gap_free:
  assumes "valid_alignment seqs"
  shows "gap_free (filtered seqs)"
proof -
  have "CHR ''-'' \<notin> set (snd q)" if q: "q \<in> set (filtered seqs)" for q
  proof -
    from q obtain key s where p: "(key, s) \<in> set seqs"
      and q_eq: "q = (key, map (\<lambda>c. s ! c) (kept_columns seqs))"
      by (auto simp: filtered_def)
    from p have "s \<in> set (dict_values seqs)" by (force simp: dict_values_def)
    then have "\<forall>c \<in> set (kept_columns seqs). s ! c \<noteq> CHR ''-''"
      by (simp add: kept_columns_set)
    then show ?thesis by (auto simp: q_eq)
  qed
  then show ?thesis
    by (simp add: gap_free_def dict_values_def list_all_iff)
qed

lemma filtered_keys: "dict_keys (filtered seqs) = dict_keys seqs"
  by (simp add: filtered_def dict_keys_def comp_def case_prod_unfold)

lemma all_gapped_filtered:
  assumes "\<forall>c < length (hd (dict_values seqs)). gapped_column seqs c"
  shows "filtered seqs = map (\<lambda>(key, s). (key, [])) seqs"
proof -
  from assms have "kept_columns seqs = []"
    by (simp add: kept_columns_def filter_empty_conv)
  then show ?thesis by (simp add: filtered_def)
qed

lemma init_empty: "init [] = Inl IndexError"
  by (simp add: init_def dict_values_def)

lemma init_nonempty:
  "seqs \<noteq> [] \<Longrightarrow>
   init seqs = Inr \<lparr>sequences = seqs, seq_length = length (hd (dict_values seqs)),
                    num_of_sequences = length seqs\<rparr>"
  by (cases seqs) (simp_all add: init_def dict_values_def)

section \<open>Ranges, slices and the blocks of a sequence\<close>

lemma range_up_step:
  "0 < step \<Longrightarrow> i < stop \<Longrightarrow> range_up i stop step = i # range_up (i + step) stop step"
  by (subst range_up.simps) simp

lemma range_up_stop: "\<not> i < stop \<Longrightarrow> range_up i stop step = []"
  by (subst range_up.simps) simp

lemma py_slice_block:
  assumes "0 \<le> i" and "0 < w"
  shows "py_slice s i (i + w) = take (nat w) (drop (nat i) s)"
proof (cases "nat i \<le> length s")
  case True
  with assms show ?thesis
    by (auto simp: py_slice_def slice_bound_def Let_def min_def nat_add_distrib)
next
  case False
  with assms show ?thesis
    by (simp add: py_slice_def slice_bound_def Let_def)
qed

lemma blocks_concat:
  assumes "0 < w" and "0 \<le> i" and "stop = int (length s)"
  shows "concat (map (\<lambda>i. py_slice s i (i + w)) (range_up i stop w)) = drop (nat i) s"
  using assms
proof (induction i stop w rule: range_up.induct)
  case (1 i stop step)
  show ?case
  proof (cases "i < stop")
    case True
    with 1 have IH: "concat (map (\<lambda>i. py_slice s i (i + step)) (range_up (i + step) stop step))
        = drop (nat (i + step)) s"
      by simp
    have "nat (i + step) = nat step + nat i" using 1 by (simp add: nat_add_distrib)
    then have "drop (nat (i + step)) s = drop (nat step) (drop (nat i) s)"
      by simp
    with IH have "concat (map (\<lambda>i. py_slice s i (i + step)) (range_up i stop step))
        = take (nat step) (drop (nat i) s) @ drop (nat step) (drop (nat i) s)"
      using 1 True by (simp add: range_up_step py_slice_block)
    then show ?thesis by (simp only: append_take_drop_id)
  next
    case False
    with 1 show ?thesis by (simp add: range_up_stop)
  qed
qed


lemma blocks_lengths:
  assumes "0 < w" and "0 \<le> i" and "stop = int (length s)"
  shows "(\<forall>b \<in> set (butlast (map (\<lambda>i. py_slice s i (i + w)) (range_up i stop w))).
            length b = nat w) \<and>
         (range_up i stop w \<noteq> [] \<longrightarrow>
            1 \<le> length (last (map (\<lambda>i. py_slice s i (i + w)) (range_up i stop w))) \<and>
            length (last (map (\<lambda>i. py_slice s i (i + w)) (range_up i stop w))) \<le> nat w)"
  using assms
proof (induction i stop w rule: range_up.induct)
  case (1 i stop step)
  note pos = \<open>0 < step\<close> and nonneg = \<open>0 \<le> i\<close> and stop = \<open>stop = int (length s)\<close>
  let ?rest = "map (\<lambda>i. py_slice s i (i + step)) (range_up (i + step) stop step)"
  show ?case
  proof (cases "i < stop")
    case False
    then show ?thesis by (simp add: range_up_stop)
  next
    case True
    note lt = this
    have unfold: "range_up i stop step = i # range_up (i + step) stop step"
      by (rule range_up_step [OF pos lt])
    have here: "length (py_slice s i (i + step)) = min (nat step) (length s - nat i)"
      by (simp add: py_slice_block [OF nonneg pos])
    show ?thesis
    proof (cases "i + step < stop")
      case True
      have "0 \<le> i + step" using pos nonneg by simp
      from "1.IH" [OF conjI [OF pos lt] pos this stop]
      have IH: "(\<forall>b \<in> set (butlast ?rest). length b = nat step) \<and>
         (range_up (i + step) stop step \<noteq> [] \<longrightarrow>
            1 \<le> length (last ?rest) \<and> length (last ?rest) \<le> nat step)" .
      have next_ne: "range_up (i + step) stop step \<noteq> []"
        by (simp add: range_up_step [OF pos True])
      have "nat step \<le> length s - nat i"
        using pos nonneg True stop by linarith
      then have full: "length (py_slice s i (i + step)) = nat step"
        unfolding here by simp
      show ?thesis
        unfolding unfold using IH next_ne full by simp
    next
      case False
      then have last: "range_up (i + step) stop step = []" by (simp add: range_up_stop)
      have "1 \<le> nat step" and "1 \<le> length s - nat i"
        using pos nonneg lt stop by linarith+
      then have "1 \<le> length (py_slice s i (i + step))"
        unfolding here by simp
      moreover have "length (py_slice s i (i + step)) \<le> nat step"
        using here by simp
      ultimately show ?thesis
        unfolding unfold last by simp
    qed
  qed
qed


lemma blocks_positive:
  assumes "0 < w"
  shows "\<exists>bs. blocks w s = Inr bs \<and> concat bs = s \<and>
              (\<forall>b \<in> set (butlast bs). length b = nat w) \<and>
              (bs \<noteq> [] \<longrightarrow> 1 \<le> length (last bs) \<and> length (last bs) \<le> nat w)"
proof -
  let ?bs = "map (\<lambda>i. py_slice s i (i + w)) (range_up 0 (int (length s)) w)"
  have "blocks w s = Inr ?bs"
    using assms by (simp add: blocks_def py_range_def)
  moreover have "concat ?bs = s"
    using blocks_concat [OF assms, of 0 "int (length s)" s] by simp
  moreover have "(\<forall>b \<in> set (butlast ?bs). length b = nat w) \<and>
      (?bs \<noteq> [] \<longrightarrow> 1 \<le> length (last ?bs) \<and> length (last ?bs) \<le> nat w)"
    using blocks_lengths [OF assms, of 0 "int (length s)" s] by simp
  ultimately show ?thesis by blast
qed

lemma write_records_positive:
  assumes "0 < width"
  shows "\<exists>bodies.
           list_all2
             (\<lambda>(header, sequence) bs.
                blocks width sequence = Inr bs \<and> concat bs = sequence \<and>
                (\<forall>b \<in> set (butlast bs). length b = nat width) \<and>
                (bs \<noteq> [] \<longrightarrow> 1 \<le> length (last bs) \<and> length (last bs) \<le> nat width))
             seqs bodies \<and>
           write_records width seqs =
             Inr (concat (map (\<lambda>((header, sequence), bs).
                    ''>'' @ header @ [CHR 0x0A] @ str_join [CHR 0x0A] bs @ [CHR 0x0A])
                  (zip seqs bodies)))"
proof (induction seqs)
  case Nil
  show ?case by simp
next
  case (Cons p seqs)
  obtain header sequence where p: "p = (header, sequence)" by (cases p)
  from blocks_positive [OF assms, of sequence]
  obtain bs where bs: "blocks width sequence = Inr bs" "concat bs = sequence"
    "\<forall>b \<in> set (butlast bs). length b = nat width"
    "bs \<noteq> [] \<longrightarrow> 1 \<le> length (last bs) \<and> length (last bs) \<le> nat width"
    by blast
  from Cons.IH obtain bodies where
    all: "list_all2
             (\<lambda>(header, sequence) bs.
                blocks width sequence = Inr bs \<and> concat bs = sequence \<and>
                (\<forall>b \<in> set (butlast bs). length b = nat width) \<and>
                (bs \<noteq> [] \<longrightarrow> 1 \<le> length (last bs) \<and> length (last bs) \<le> nat width))
             seqs bodies"
    and out: "write_records width seqs =
             Inr (concat (map (\<lambda>((header, sequence), bs).
                    ''>'' @ header @ [CHR 0x0A] @ str_join [CHR 0x0A] bs @ [CHR 0x0A])
                  (zip seqs bodies)))"
    by blast
  show ?case
    unfolding p
    by (rule exI [of _ "bs # bodies"]) (use bs all out in simp)
qed

section \<open>The gap-column filter on valid alignments\<close>

text \<open>
  Claim C1. On a valid alignment the filter succeeds; the kept column indices, in
  ascending order, are exactly the indices below the sequence length at which no row
  has the gap symbol, and every output sequence is its row's characters at the kept
  indices, in that order.
\<close>

theorem filter_keeps_gap_free_columns:
  assumes "valid_alignment (sequences self)"
  shows "\<exists>cols self'.
           delete_gaped_columns self = Inr self' \<and>
           sorted_wrt (<) cols \<and>
           (\<forall>c. c \<in> set cols \<longleftrightarrow>
                  c < length (hd (dict_values (sequences self))) \<and>
                  (\<forall>s \<in> set (dict_values (sequences self)). s ! c \<noteq> CHR ''-'')) \<and>
           sequences self' =
             map (\<lambda>(key, s). (key, map (\<lambda>c. s ! c) cols)) (sequences self)"
proof (intro exI conjI)
  show "delete_gaped_columns self = Inr (self\<lparr>sequences := filtered (sequences self)\<rparr>)"
    by (rule delete_gaped_columns_valid [OF assms])
  show "sorted_wrt (<) (kept_columns (sequences self))"
    by (rule kept_columns_sorted)
  show "\<forall>c. c \<in> set (kept_columns (sequences self)) \<longleftrightarrow>
              c < length (hd (dict_values (sequences self))) \<and>
              (\<forall>s \<in> set (dict_values (sequences self)). s ! c \<noteq> CHR ''-'')"
    by (simp add: kept_columns_set)
  show "sequences (self\<lparr>sequences := filtered (sequences self)\<rparr>) =
          map (\<lambda>(key, s). (key, map (\<lambda>c. s ! c) (kept_columns (sequences self))))
            (sequences self)"
    by (simp add: filtered_def)
qed

theorem filter_keeps_gap_free_columns_witness:
  "valid_alignment [(''seq1'', ''AG-T''), (''seq2'', ''AC-T''), (''seq3'', ''A--T'')] \<and>
   delete_gaped_columns
     \<lparr>sequences = [(''seq1'', ''AG-T''), (''seq2'', ''AC-T''), (''seq3'', ''A--T'')],
      seq_length = 4, num_of_sequences = 3\<rparr> =
   Inr \<lparr>sequences = [(''seq1'', ''AT''), (''seq2'', ''AT''), (''seq3'', ''AT'')],
        seq_length = 4, num_of_sequences = 3\<rparr>"
proof -
  let ?self = "\<lparr>sequences = [(''seq1'', ''AG-T''), (''seq2'', ''AC-T''), (''seq3'', ''A--T'')],
                 seq_length = 4, num_of_sequences = 3\<rparr>"
  have v: "valid_alignment (sequences ?self)"
    by (simp add: valid_alignment_def dict_keys_def dict_values_def)
  from filter_keeps_gap_free_columns [OF v]
  obtain cols self' where res: "delete_gaped_columns ?self = Inr self'"
    and mem: "\<forall>c. c \<in> set cols \<longleftrightarrow>
                c < length (hd (dict_values (sequences ?self))) \<and>
                (\<forall>s \<in> set (dict_values (sequences ?self)). s ! c \<noteq> CHR ''-'')"
    and srt: "sorted_wrt (<) cols"
    and out: "sequences self' = map (\<lambda>(key, s). (key, map (\<lambda>c. s ! c) cols)) (sequences ?self)"
    by blast
  have "delete_gaped_columns ?self =
          Inr \<lparr>sequences = [(''seq1'', ''AT''), (''seq2'', ''AT''), (''seq3'', ''AT'')],
               seq_length = 4, num_of_sequences = 3\<rparr>"
    by code_simp
  with v res show ?thesis by simp
qed

text \<open>
  Claim C4. On a valid alignment, filtering the result of a first filtering changes
  nothing, and the result of the first filtering holds no gap symbol.
\<close>

theorem filter_idempotent:
  assumes "valid_alignment (sequences self)"
  shows "\<exists>self'. delete_gaped_columns self = Inr self' \<and>
                 delete_gaped_columns self' = Inr self' \<and>
                 gap_free (sequences self')"
proof (intro exI conjI)
  let ?self' = "self\<lparr>sequences := filtered (sequences self)\<rparr>"
  show "delete_gaped_columns self = Inr ?self'"
    by (rule delete_gaped_columns_valid [OF assms])
  have v: "valid_alignment (sequences ?self')"
    using filtered_valid [OF assms] by simp
  show g: "gap_free (sequences ?self')"
    using filtered_gap_free [OF assms] by simp
  show "delete_gaped_columns ?self' = Inr ?self'"
    by (rule delete_gaped_columns_gap_free [OF v g])
qed

theorem filter_idempotent_witness:
  "valid_alignment [(''A'', ''AC-G''), (''B'', ''AG-G'')] \<and>
   delete_gaped_columns
     \<lparr>sequences = [(''A'', ''AC-G''), (''B'', ''AG-G'')], seq_length = 4,
      num_of_sequences = 2\<rparr> =
   Inr \<lparr>sequences = [(''A'', ''ACG''), (''B'', ''AGG'')], seq_length = 4,
        num_of_sequences = 2\<rparr> \<and>
   delete_gaped_columns
     \<lparr>sequences = [(''A'', ''ACG''), (''B'', ''AGG'')], seq_length = 4,
      num_of_sequences = 2\<rparr> =
   Inr \<lparr>sequences = [(''A'', ''ACG''), (''B'', ''AGG'')], seq_length = 4,
        num_of_sequences = 2\<rparr>"
proof -
  let ?self = "\<lparr>sequences = [(''A'', ''AC-G''), (''B'', ''AG-G'')], seq_length = 4,
                 num_of_sequences = 2\<rparr>"
  let ?self' = "\<lparr>sequences = [(''A'', ''ACG''), (''B'', ''AGG'')], seq_length = 4,
                  num_of_sequences = 2\<rparr>"
  have v: "valid_alignment (sequences ?self)"
    by (simp add: valid_alignment_def dict_keys_def dict_values_def)
  have once: "delete_gaped_columns ?self = Inr ?self'"
    by code_simp
  from filter_idempotent [OF v] once
  have "delete_gaped_columns ?self' = Inr ?self'" by auto
  with v once show ?thesis by simp
qed

text \<open>
  Claim C5. On a valid alignment the filter keeps the identifiers and their order, so
  also their number, and shortens every sequence by the same number of characters.
\<close>

theorem filter_preserves_rows:
  assumes "valid_alignment (sequences self)"
  shows "\<exists>self' removed.
           delete_gaped_columns self = Inr self' \<and>
           dict_keys (sequences self') = dict_keys (sequences self) \<and>
           num_of_sequences self' = num_of_sequences self \<and>
           list_all2 (\<lambda>s' s. length s' + removed = length s)
             (dict_values (sequences self')) (dict_values (sequences self))"
proof (intro exI conjI)
  let ?d = "sequences self"
  let ?n = "length (hd (dict_values ?d))"
  let ?self' = "self\<lparr>sequences := filtered ?d\<rparr>"
  let ?removed = "?n - length (kept_columns ?d)"
  show "delete_gaped_columns self = Inr ?self'"
    by (rule delete_gaped_columns_valid [OF assms])
  show "dict_keys (sequences ?self') = dict_keys ?d"
    by (simp add: filtered_keys)
  show "num_of_sequences ?self' = num_of_sequences self" by simp
  have le: "length (kept_columns ?d) \<le> ?n"
    using length_filter_le [of "\<lambda>c. \<not> gapped_column ?d c" "[0..<?n]"]
    by (simp add: kept_columns_def)
  have "list_all2 (\<lambda>s' s. length s' + ?removed = length s)
          (dict_values (filtered ?d)) (dict_values ?d)"
    using assms le
    by (auto simp: list_all2_conv_all_nth dict_values_def filtered_def valid_alignment_def
        list_all_iff case_prod_unfold)
  then show "list_all2 (\<lambda>s' s. length s' + ?removed = length s)
          (dict_values (sequences ?self')) (dict_values ?d)"
    by simp
qed

theorem filter_preserves_rows_witness:
  "valid_alignment [(''A'', ''AC-G''), (''B'', ''AG-G'')] \<and>
   (\<exists>self'.
      delete_gaped_columns
        \<lparr>sequences = [(''A'', ''AC-G''), (''B'', ''AG-G'')], seq_length = 4,
         num_of_sequences = 2\<rparr> = Inr self' \<and>
      dict_keys (sequences self') = [''A'', ''B''] \<and>
      num_of_sequences self' = 2)"
proof -
  let ?self = "\<lparr>sequences = [(''A'', ''AC-G''), (''B'', ''AG-G'')], seq_length = 4,
                 num_of_sequences = 2\<rparr>"
  have v: "valid_alignment (sequences ?self)"
    by (simp add: valid_alignment_def dict_keys_def dict_values_def)
  from filter_preserves_rows [OF v] v show ?thesis
    by (auto simp: dict_keys_def)
qed

text \<open>
  Claim C6. On a valid alignment the filter raises no error; when every column is
  gapped, the result maps every identifier to the empty sequence.
\<close>

theorem filter_always_succeeds:
  assumes "valid_alignment (sequences self)"
  shows "\<exists>self'.
           delete_gaped_columns self = Inr self' \<and>
           ((\<forall>c < length (hd (dict_values (sequences self))). gapped_column (sequences self) c)
            \<longrightarrow> sequences self' = map (\<lambda>(key, s). (key, [])) (sequences self))"
proof (intro exI conjI impI)
  show "delete_gaped_columns self = Inr (self\<lparr>sequences := filtered (sequences self)\<rparr>)"
    by (rule delete_gaped_columns_valid [OF assms])
  assume "\<forall>c < length (hd (dict_values (sequences self))). gapped_column (sequences self) c"
  then show "sequences (self\<lparr>sequences := filtered (sequences self)\<rparr>) =
               map (\<lambda>(key, s). (key, [])) (sequences self)"
    by (simp add: all_gapped_filtered)
qed

theorem filter_always_succeeds_witness:
  "valid_alignment [(''A'', ''-C''), (''B'', ''G-'')] \<and>
   gapped_column [(''A'', ''-C''), (''B'', ''G-'')] 0 \<and>
   gapped_column [(''A'', ''-C''), (''B'', ''G-'')] 1 \<and>
   (\<exists>self'.
      delete_gaped_columns
        \<lparr>sequences = [(''A'', ''-C''), (''B'', ''G-'')], seq_length = 2,
         num_of_sequences = 2\<rparr> = Inr self' \<and>
      sequences self' = [(''A'', []), (''B'', [])])"
proof -
  let ?self = "\<lparr>sequences = [(''A'', ''-C''), (''B'', ''G-'')], seq_length = 2,
                 num_of_sequences = 2\<rparr>"
  have v: "valid_alignment (sequences ?self)"
    by (simp add: valid_alignment_def dict_keys_def dict_values_def)
  have g0: "gapped_column (sequences ?self) 0" and g1: "gapped_column (sequences ?self) 1"
    by (simp_all add: gapped_column_def dict_values_def)
  have all: "\<forall>c < length (hd (dict_values (sequences ?self))). gapped_column (sequences ?self) c"
  proof (intro allI impI)
    fix c assume "c < length (hd (dict_values (sequences ?self)))"
    then have "c = 0 \<or> c = 1" by (auto simp: dict_values_def)
    with g0 g1 show "gapped_column (sequences ?self) c" by auto
  qed
  from filter_always_succeeds [OF v] all
  obtain self' where "delete_gaped_columns ?self = Inr self'"
    and "sequences self' = map (\<lambda>(key, s). (key, [])) (sequences ?self)"
    by blast
  with v g0 g1 show ?thesis by simp
qed

text \<open>
  Claim C7. On a valid alignment without any gap symbol, which includes every valid
  alignment of sequence length zero, the filter returns the alignment as it was.
\<close>

theorem filter_identity_on_gap_free:
  assumes "valid_alignment (sequences self)"
    and "gap_free (sequences self) \<or> hd (dict_values (sequences self)) = []"
  shows "delete_gaped_columns self = Inr self"
proof -
  have "gap_free (sequences self)"
  proof (cases "gap_free (sequences self)")
    case True
    then show ?thesis .
  next
    case False
    with assms(2) have "hd (dict_values (sequences self)) = []" by simp
    with assms(1) have "\<forall>s \<in> set (dict_values (sequences self)). s = []"
      by (simp add: valid_alignment_def list_all_iff)
    then show ?thesis by (auto simp: gap_free_def list_all_iff)
  qed
  with assms(1) show ?thesis by (rule delete_gaped_columns_gap_free)
qed

theorem filter_identity_on_gap_free_witness:
  "valid_alignment [(''A'', ''ACG''), (''B'', ''AGG'')] \<and>
   gap_free [(''A'', ''ACG''), (''B'', ''AGG'')] \<and>
   delete_gaped_columns
     \<lparr>sequences = [(''A'', ''ACG''), (''B'', ''AGG'')], seq_length = 3,
      num_of_sequences = 2\<rparr> =
   Inr \<lparr>sequences = [(''A'', ''ACG''), (''B'', ''AGG'')], seq_length = 3,
        num_of_sequences = 2\<rparr> \<and>
   valid_alignment [(''A'', ''''), (''B'', '''')] \<and>
   hd (dict_values [(''A'', ''''), (''B'', '''')]) = ([]::string) \<and>
   delete_gaped_columns
     \<lparr>sequences = [(''A'', ''''), (''B'', '''')], seq_length = 0, num_of_sequences = 2\<rparr> =
   Inr \<lparr>sequences = [(''A'', ''''), (''B'', '''')], seq_length = 0, num_of_sequences = 2\<rparr>"
proof -
  let ?self = "\<lparr>sequences = [(''A'', ''ACG''), (''B'', ''AGG'')], seq_length = 3,
                 num_of_sequences = 2\<rparr>"
  let ?empty = "\<lparr>sequences = [(''A'', ''''), (''B'', '''')], seq_length = 0,
                  num_of_sequences = 2\<rparr>"
  have v: "valid_alignment (sequences ?self)"
    by (simp add: valid_alignment_def dict_keys_def dict_values_def)
  have g: "gap_free (sequences ?self)"
    by (simp add: gap_free_def dict_values_def)
  have v0: "valid_alignment (sequences ?empty)"
    by (simp add: valid_alignment_def dict_keys_def dict_values_def)
  have e0: "hd (dict_values (sequences ?empty)) = ([]::string)"
    by (simp add: dict_values_def)
  from filter_identity_on_gap_free [of ?self] v g
  have r: "delete_gaped_columns ?self = Inr ?self" by blast
  from filter_identity_on_gap_free [of ?empty] v0 e0
  have r0: "delete_gaped_columns ?empty = Inr ?empty" by blast
  from v g r v0 e0 r0 show ?thesis by simp
qed

section \<open>The initializer\<close>

text \<open>
  Claim C10. The initializer validates nothing: on every non-empty dictionary, also one
  whose sequences differ in length, it succeeds, \<open>seq_length\<close> is the length of the
  first-inserted sequence and \<open>num_of_sequences\<close> is the number of entries.
\<close>

theorem init_no_validation:
  assumes "seqs \<noteq> []"
  shows "init seqs =
           Inr \<lparr>sequences = seqs, seq_length = length (snd (hd seqs)),
                num_of_sequences = length seqs\<rparr>"
  using assms by (cases seqs) (simp_all add: init_def dict_values_def)

theorem init_no_validation_witness:
  "[(''A'', ''AC''), (''B'', ''A'')] \<noteq> [] \<and>
   init [(''A'', ''AC''), (''B'', ''A'')] =
     Inr \<lparr>sequences = [(''A'', ''AC''), (''B'', ''A'')], seq_length = 2,
          num_of_sequences = 2\<rparr>"
  using init_no_validation [of "[(''A'', ''AC''), (''B'', ''A'')]"] by simp

text \<open>
  Claim C2, as the code has it. The initializer checks no lengths: a dictionary whose
  sequences differ in length is accepted.
\<close>

theorem init_unequal_lengths_counterexample:
  "init [(''s1'', ''ACGT''), (''s2'', ''AC'')] =
     Inr \<lparr>sequences = [(''s1'', ''ACGT''), (''s2'', ''AC'')], seq_length = 4,
          num_of_sequences = 2\<rparr> \<and>
   length ''ACGT'' \<noteq> length ''AC''"
  by (simp add: init_def dict_values_def)

text \<open>
  Claim C2, amended. The initializer fails exactly on the empty dictionary, with
  \<open>IndexError\<close>; on every other dictionary it succeeds, keeps the dictionary, counts
  its entries and takes the length of the first-inserted sequence, which is the shared
  length when the alignment is valid.
\<close>

theorem init_fails_only_on_empty:
  "(init seqs = Inl e \<longleftrightarrow> seqs = [] \<and> e = IndexError) \<and>
   (seqs \<noteq> [] \<longrightarrow>
      (\<exists>self. init seqs = Inr self \<and> sequences self = seqs \<and>
              num_of_sequences self = length seqs \<and>
              seq_length self = length (hd (dict_values seqs)) \<and>
              (valid_alignment seqs \<longrightarrow> length_invariant self)))"
proof (cases "seqs = []")
  case True
  then show ?thesis by (auto simp: init_empty)
next
  case False
  then show ?thesis
    by (auto simp: init_nonempty valid_alignment_def length_invariant_def)
qed

theorem init_fails_only_on_empty_witness:
  "init [] = Inl IndexError \<and>
   valid_alignment [(''s1'', ''ACGT''), (''s2'', ''AC-T'')] \<and>
   (\<exists>self. init [(''s1'', ''ACGT''), (''s2'', ''AC-T'')] = Inr self \<and>
           sequences self = [(''s1'', ''ACGT''), (''s2'', ''AC-T'')] \<and>
           num_of_sequences self = 2 \<and> seq_length self = 4 \<and> length_invariant self)"
proof -
  let ?seqs = "[(''s1'', ''ACGT''), (''s2'', ''AC-T'')]"
  have v: "valid_alignment ?seqs"
    by (simp add: valid_alignment_def dict_keys_def dict_values_def)
  have ne: "?seqs \<noteq> []" by simp
  from init_fails_only_on_empty [of "[]" IndexError]
  have empty: "init [] = Inl IndexError" by simp
  from init_fails_only_on_empty [of ?seqs] ne v
  obtain self where "init ?seqs = Inr self" and "sequences self = ?seqs"
    and "num_of_sequences self = length ?seqs"
    and "seq_length self = length (hd (dict_values ?seqs))"
    and "length_invariant self"
    by blast
  then have "init ?seqs = Inr self \<and> sequences self = ?seqs \<and>
      num_of_sequences self = 2 \<and> seq_length self = 4 \<and> length_invariant self"
    by (simp add: dict_values_def)
  then show ?thesis using empty v by blast
qed

text \<open>
  Claim C3, as the code has it. A state built from sequences of unequal length breaks
  the invariant at once, and after the filter has shortened the sequences of a valid
  alignment the stored \<open>seq_length\<close> is still the old length.
\<close>

theorem length_invariant_counterexample:
  "init [(''A'', ''AC''), (''B'', ''A'')] =
     Inr \<lparr>sequences = [(''A'', ''AC''), (''B'', ''A'')], seq_length = 2,
          num_of_sequences = 2\<rparr> \<and>
   \<not> length_invariant
       \<lparr>sequences = [(''A'', ''AC''), (''B'', ''A'')], seq_length = 2,
        num_of_sequences = 2\<rparr> \<and>
   init [(''A'', ''A-''), (''B'', ''AC'')] =
     Inr \<lparr>sequences = [(''A'', ''A-''), (''B'', ''AC'')], seq_length = 2,
          num_of_sequences = 2\<rparr> \<and>
   delete_gaped_columns
     \<lparr>sequences = [(''A'', ''A-''), (''B'', ''AC'')], seq_length = 2,
      num_of_sequences = 2\<rparr> =
     Inr \<lparr>sequences = [(''A'', ''A''), (''B'', ''A'')], seq_length = 2,
          num_of_sequences = 2\<rparr> \<and>
   \<not> length_invariant
       \<lparr>sequences = [(''A'', ''A''), (''B'', ''A'')], seq_length = 2,
        num_of_sequences = 2\<rparr>"
proof -
  have "delete_gaped_columns
     \<lparr>sequences = [(''A'', ''A-''), (''B'', ''AC'')], seq_length = 2,
      num_of_sequences = 2\<rparr> =
     Inr \<lparr>sequences = [(''A'', ''A''), (''B'', ''A'')], seq_length = 2,
          num_of_sequences = 2\<rparr>"
    by code_simp
  then show ?thesis
    by (simp add: init_def dict_values_def length_invariant_def)
qed

text \<open>
  Claim C3, amended. A state built from a valid alignment satisfies the invariant, and
  after the filter its sequences are again a valid alignment (one shared length) whose
  number of entries is the stored count.
\<close>

theorem filter_keeps_equal_lengths:
  assumes "valid_alignment seqs"
  shows "\<exists>self self'.
           init seqs = Inr self \<and> length_invariant self \<and>
           delete_gaped_columns self = Inr self' \<and>
           valid_alignment (sequences self') \<and>
           length (sequences self') = num_of_sequences self'"
proof (intro exI conjI)
  let ?self = "\<lparr>sequences = seqs, seq_length = length (hd (dict_values seqs)),
                 num_of_sequences = length seqs\<rparr>"
  let ?self' = "?self\<lparr>sequences := filtered seqs\<rparr>"
  from assms have ne: "seqs \<noteq> []" by (simp add: valid_alignment_def)
  show "init seqs = Inr ?self" by (rule init_nonempty [OF ne])
  show "length_invariant ?self"
    using assms by (simp add: length_invariant_def valid_alignment_def)
  have v: "valid_alignment (sequences ?self)" using assms by simp
  from delete_gaped_columns_valid [OF v]
  show "delete_gaped_columns ?self = Inr ?self'" by simp
  show "valid_alignment (sequences ?self')"
    using filtered_valid [OF assms] by simp
  show "length (sequences ?self') = num_of_sequences ?self'"
    by (simp add: filtered_def)
qed

theorem filter_keeps_equal_lengths_witness:
  "valid_alignment [(''A'', ''A-''), (''B'', ''AC'')] \<and>
   (\<exists>self self'.
      init [(''A'', ''A-''), (''B'', ''AC'')] = Inr self \<and> length_invariant self \<and>
      delete_gaped_columns self = Inr self' \<and>
      valid_alignment (sequences self') \<and>
      length (sequences self') = num_of_sequences self')"
proof -
  have v: "valid_alignment [(''A'', ''A-''), (''B'', ''AC'')]"
    by (simp add: valid_alignment_def dict_keys_def dict_values_def)
  from filter_keeps_equal_lengths [OF v] v show ?thesis by blast
qed

section \<open>Writing the alignment\<close>



text \<open>
  Claim C9, as the code has it. \<open>write_file\<close> has no width parameter, so a call that
  passes a width that is not positive is refused with \<open>TypeError\<close>, as any further
  argument is; no error of the configuration exists.
\<close>

theorem write_file_refuses_width_counterexample:
  "call_write_file
     \<lparr>sequences = [(''A'', ''ACGT'')], seq_length = 4, num_of_sequences = 1\<rparr>
     ''out.fa'' (Some (- 1)) = Inl TypeError \<and>
   call_write_file
     \<lparr>sequences = [(''A'', ''ACGT'')], seq_length = 4, num_of_sequences = 1\<rparr>
     ''out.fa'' (Some 0) = Inl TypeError"
  by (simp add: call_write_file_def)

text \<open>
  Claim C9, amended. \<open>write_file\<close> validates no configuration: it takes no width, a call
  that passes one fails with \<open>TypeError\<close> instead of producing output, and a call
  without one, on a path the method accepts, writes every sequence in blocks of the
  fixed width 60.
\<close>

theorem write_file_width_is_fixed:
  "call_write_file self path (Some width) = Inl TypeError \<and>
   (endswith path ''.fa'' \<or> endswith path ''.fasta'' \<longrightarrow>
      (\<exists>bodies.
         list_all2
           (\<lambda>(header, sequence) bs.
              concat bs = sequence \<and>
              (\<forall>b \<in> set (butlast bs). length b = 60) \<and>
              (bs \<noteq> [] \<longrightarrow> 1 \<le> length (last bs) \<and> length (last bs) \<le> 60))
           (sequences self) bodies \<and>
         call_write_file self path None =
           Inr (concat (map (\<lambda>((header, sequence), bs).
                  ''>'' @ header @ [CHR 0x0A] @ str_join [CHR 0x0A] bs @ [CHR 0x0A])
                (zip (sequences self) bodies)))))"
proof (intro conjI impI)
  show "call_write_file self path (Some width) = Inl TypeError"
    by (simp add: call_write_file_def)
next
  assume suffix: "endswith path ''.fa'' \<or> endswith path ''.fasta''"
  from write_records_positive [of 60 "sequences self"]
  obtain bodies where
    all: "list_all2
             (\<lambda>(header, sequence) bs.
                blocks 60 sequence = Inr bs \<and> concat bs = sequence \<and>
                (\<forall>b \<in> set (butlast bs). length b = nat 60) \<and>
                (bs \<noteq> [] \<longrightarrow> 1 \<le> length (last bs) \<and> length (last bs) \<le> nat 60))
             (sequences self) bodies"
    and out: "write_records 60 (sequences self) =
             Inr (concat (map (\<lambda>((header, sequence), bs).
                    ''>'' @ header @ [CHR 0x0A] @ str_join [CHR 0x0A] bs @ [CHR 0x0A])
                  (zip (sequences self) bodies)))"
    by auto
  from all have "list_all2
           (\<lambda>(header, sequence) bs.
              concat bs = sequence \<and>
              (\<forall>b \<in> set (butlast bs). length b = 60) \<and>
              (bs \<noteq> [] \<longrightarrow> 1 \<le> length (last bs) \<and> length (last bs) \<le> 60))
           (sequences self) bodies"
    by (rule list_all2_mono) auto
  moreover from suffix out have "call_write_file self path None =
           Inr (concat (map (\<lambda>((header, sequence), bs).
                  ''>'' @ header @ [CHR 0x0A] @ str_join [CHR 0x0A] bs @ [CHR 0x0A])
                (zip (sequences self) bodies)))"
    by (simp add: call_write_file_def write_file_def)
  ultimately show "\<exists>bodies.
         list_all2
           (\<lambda>(header, sequence) bs.
              concat bs = sequence \<and>
              (\<forall>b \<in> set (butlast bs). length b = 60) \<and>
              (bs \<noteq> [] \<longrightarrow> 1 \<le> length (last bs) \<and> length (last bs) \<le> 60))
           (sequences self) bodies \<and>
         call_write_file self path None =
           Inr (concat (map (\<lambda>((header, sequence), bs).
                  ''>'' @ header @ [CHR 0x0A] @ str_join [CHR 0x0A] bs @ [CHR 0x0A])
                (zip (sequences self) bodies)))"
    by blast
qed

theorem write_file_width_is_fixed_witness:
  "call_write_file
     \<lparr>sequences = [(''A'', replicate 61 CHR ''C'')], seq_length = 61, num_of_sequences = 1\<rparr>
     ''out.fa'' (Some (- 1)) = Inl TypeError \<and>
   endswith ''out.fa'' ''.fa'' \<and>
   call_write_file
     \<lparr>sequences = [(''A'', replicate 61 CHR ''C'')], seq_length = 61, num_of_sequences = 1\<rparr>
     ''out.fa'' None =
     Inr (''>A'' @ [CHR 0x0A] @ replicate 60 CHR ''C'' @ [CHR 0x0A] @ ''C'' @ [CHR 0x0A])"
proof -
  let ?self = "\<lparr>sequences = [(''A'', replicate 61 CHR ''C'')], seq_length = 61,
                 num_of_sequences = 1\<rparr>"
  have good: "endswith ''out.fa'' ''.fa''" by (simp add: endswith_def)
  have b: "blocks 60 (replicate 61 CHR ''C'') = Inr [replicate 60 CHR ''C'', ''C'']"
    by code_simp
  from write_file_width_is_fixed [of ?self "''out.fa''" "- 1"] good
  obtain bodies where
    refused: "call_write_file ?self ''out.fa'' (Some (- 1)) = Inl TypeError"
    and out: "call_write_file ?self ''out.fa'' None =
           Inr (concat (map (\<lambda>((header, sequence), bs).
                  ''>'' @ header @ [CHR 0x0A] @ str_join [CHR 0x0A] bs @ [CHR 0x0A])
                (zip (sequences ?self) bodies)))"
    by blast
  have direct: "call_write_file ?self ''out.fa'' None =
      Inr (''>A'' @ [CHR 0x0A] @ replicate 60 CHR ''C'' @ [CHR 0x0A] @ ''C'' @ [CHR 0x0A])"
    using good b by (simp add: call_write_file_def write_file_def)
  from refused good direct show ?thesis by blast
qed

end
